theory Spec2Isabelle
  imports Main "HOL-Library.Sublist" "HOL-Library.AList"
begin

section \<open>The link restorer of \<^verbatim>\<open>restore_links.py\<close>\<close>

text \<open>
  The program loads \<^verbatim>\<open>hrefInventory.txt\<close> into a dictionary from short tokens to
  URLs, walks the directory tree, and rewrites \<^verbatim>\<open>[text](short)\<close> into
  \<^verbatim>\<open>[text](href)\<close> in every \<^verbatim>\<open>.md\<close> file.

  Text is a \<open>string\<close>: one \<open>char\<close> stands for one character of a Python \<open>str\<close>.
  Exceptions are values of the type \<open>error\<close>; the text carried by an exception, which
  the program prints, is the argument of the constructor.
\<close>

subsection \<open>Errors\<close>

datatype error =
    ValueError        \<comment> \<open>unpacking a list that does not have two elements\<close>
  | ReError           \<comment> \<open>\<^verbatim>\<open>re.error\<close>, raised for a malformed replacement template\<close>
  | IndexError        \<comment> \<open>an unknown group name in a replacement template\<close>
  | OSError string    \<comment> \<open>a failed open, read, decode or write, with its message\<close>

subsection \<open>Loading the mapping (lines 13 to 20)\<close>

definition newline :: char where
  "newline = CHR 0x0A"

definition bar :: char where
  "bar = CHR ''|''"

text \<open>\<^verbatim>\<open>'||' in line\<close>: the delimiter occurs somewhere in the line.\<close>

fun contains_delim :: "string \<Rightarrow> bool" where
  "contains_delim (c # d # cs) = ((c = bar \<and> d = bar) \<or> contains_delim (d # cs))"
| "contains_delim _ = False"

text \<open>
  \<^verbatim>\<open>str.isspace\<close> on the characters below 256: tab to carriage return, the four
  separators \<open>0x1C\<close> to \<open>0x1F\<close>, the space, \<open>0x85\<close> and the no-break space.
  \<^verbatim>\<open>line.strip()\<close> removes these from both ends.
\<close>

definition is_space :: "char \<Rightarrow> bool" where
  "is_space c = (let n = (of_char c :: nat) in
     (9 \<le> n \<and> n \<le> 13) \<or> (28 \<le> n \<and> n \<le> 32) \<or> n = 133 \<or> n = 160)"

definition strip :: "string \<Rightarrow> string" where
  "strip s = rev (dropWhile is_space (rev (dropWhile is_space s)))"

text \<open>
  \<^verbatim>\<open>s.split('||')\<close>: the pieces between all the non-overlapping occurrences of the
  delimiter, found from the left. There is no limit on the number of splits.
\<close>

fun split_delim :: "string \<Rightarrow> string list" where
  "split_delim [] = [[]]"
| "split_delim [c] = [[c]]"
| "split_delim (c # d # cs) =
     (if c = bar \<and> d = bar then [] # split_delim cs
      else (case split_delim (d # cs) of
              [] \<Rightarrow> [[c]]
            | p # ps \<Rightarrow> (c # p) # ps))"

text \<open>
  The dictionary \<open>short_to_href\<close> is an association list in insertion order:
  assigning to a key that is present replaces its value in place
  (\<^const>\<open>AList.update\<close>), as a Python \<open>dict\<close> does. The order is the order in which
  the substitution visits the entries.
\<close>

type_synonym mapping = "(string \<times> string) list"

text \<open>
  The loop of lines 17 to 20. \<^verbatim>\<open>short, href = ...\<close> unpacks a list of exactly
  two elements and raises \<^verbatim>\<open>ValueError\<close> on any other length.
\<close>

fun load_lines :: "mapping \<Rightarrow> string list \<Rightarrow> error + mapping" where
  "load_lines short_to_href [] = Inr short_to_href"
| "load_lines short_to_href (line # lines) =
     (if contains_delim line then
        (case split_delim (strip line) of
           [short, href] \<Rightarrow> load_lines (AList.update short href short_to_href) lines
         | _ \<Rightarrow> Inl ValueError)
      else load_lines short_to_href lines)"

definition load_mapping :: "string list \<Rightarrow> error + mapping" where
  "load_mapping lines = load_lines [] lines"

text \<open>
  What a line declares, for stating the loader's result: the token and the URL of a line
  that has the delimiter and splits into two fields.
\<close>

definition declares :: "string \<Rightarrow> (string \<times> string) option" where
  "declares line =
     (if contains_delim line then
        (case split_delim (strip line) of [short, href] \<Rightarrow> Some (short, href) | _ \<Rightarrow> None)
      else None)"

definition valid_line :: "string \<Rightarrow> bool" where
  "valid_line line = (contains_delim line \<longrightarrow> length (split_delim (strip line)) = 2)"

subsection \<open>The replacement template (line 37, \<^verbatim>\<open>r'\1(' + href + ')'\<close>)\<close>

text \<open>
  \<^verbatim>\<open>pattern.sub\<close> receives a string template. The template contains a backslash, so
  the \<^verbatim>\<open>re\<close> module parses it before it looks for any match (CPython 3.12,
  \<^verbatim>\<open>re._parser.parse_template\<close>): the tokenizer pairs each backslash with the
  character after it, and the parser turns the tokens into literals and group
  references. The compiled pattern has one group. Every failure of the parser is an
  exception (\<^verbatim>\<open>re.error\<close>, or \<^verbatim>\<open>IndexError\<close> for a group name that is an
  identifier); the program catches neither, and the model has the one value
  \<open>ReError\<close> for \<^verbatim>\<open>re.error\<close> and \<open>IndexError\<close> for the other.
\<close>

definition backslash :: char where
  "backslash = CHR 0x5C"

datatype token = Chr char | Esc char

text \<open>Putting an element in front of a result, unless the result is an exception.\<close>

fun cons_ok :: "'a \<Rightarrow> error + 'a list \<Rightarrow> error + 'a list" where
  "cons_ok x (Inl e) = Inl e"
| "cons_ok x (Inr xs) = Inr (x # xs)"

fun tokenize :: "string \<Rightarrow> error + token list" where
  "tokenize [] = Inr []"
| "tokenize [c] = (if c = backslash then Inl ReError else Inr [Chr c])"
| "tokenize (c # d # cs) =
     (if c = backslash then cons_ok (Esc d) (tokenize cs)
      else cons_ok (Chr c) (tokenize (d # cs)))"

definition is_digit :: "char \<Rightarrow> bool" where
  "is_digit c = (48 \<le> (of_char c :: nat) \<and> (of_char c :: nat) \<le> 57)"

definition is_octdigit :: "char \<Rightarrow> bool" where
  "is_octdigit c = (48 \<le> (of_char c :: nat) \<and> (of_char c :: nat) \<le> 55)"

definition is_ascii_letter :: "char \<Rightarrow> bool" where
  "is_ascii_letter c = (let n = (of_char c :: nat) in
     (65 \<le> n \<and> n \<le> 90) \<or> (97 \<le> n \<and> n \<le> 122))"

definition digit_val :: "char \<Rightarrow> nat" where
  "digit_val c = (of_char c :: nat) - 48"

text \<open>\<^verbatim>\<open>int(s)\<close> and \<^verbatim>\<open>int(s, 8)\<close> on a string of digits.\<close>

definition int_of :: "nat \<Rightarrow> string \<Rightarrow> nat" where
  "int_of base s = foldl (\<lambda>n c. n * base + digit_val c) 0 s"

text \<open>
  \<^verbatim>\<open>s.getuntil(">", ...)\<close>: the tokens up to the next \<^verbatim>\<open>>\<close> and the tokens
  after it; \<open>None\<close> when the template ends first.
\<close>

fun getuntil :: "token list \<Rightarrow> (token list \<times> token list) option" where
  "getuntil [] = None"
| "getuntil (t # ts) =
     (if t = Chr (CHR ''>'') then Some ([], ts)
      else (case getuntil ts of None \<Rightarrow> None | Some (name, rest) \<Rightarrow> Some (t # name, rest)))"

text \<open>
  \<^verbatim>\<open>name.isdecimal() and name.isascii()\<close>: the name is made of ASCII digits only
  (an escaped character is a token of two characters, the first a backslash).
\<close>

fun name_chars :: "token list \<Rightarrow> string option" where
  "name_chars [] = Some []"
| "name_chars (Chr c # ts) =
     (if is_digit c then map_option ((#) c) (name_chars ts) else None)"
| "name_chars (Esc c # ts) = None"

text \<open>
  \<^verbatim>\<open>checkgroupname\<close> on a name that is not a decimal number: an ASCII identifier
  passes and is then looked up among the named groups of the pattern, which has none
  (\<^verbatim>\<open>IndexError\<close>); any other name is a \<^verbatim>\<open>re.error\<close>. Characters above 127 are
  not told apart here: the model treats them as not being identifier characters.
\<close>

definition is_ident_start :: "char \<Rightarrow> bool" where
  "is_ident_start c = (is_ascii_letter c \<or> c = CHR ''_'')"

fun is_identifier :: "token list \<Rightarrow> bool" where
  "is_identifier [] = False"
| "is_identifier (Chr c # ts) =
     (is_ident_start c \<and>
      list_all (\<lambda>t. case t of Chr d \<Rightarrow> is_ident_start d \<or> is_digit d | Esc _ \<Rightarrow> False) ts)"
| "is_identifier (Esc c # ts) = False"

datatype titem = Lit string | Group nat

text \<open>The number of groups of the compiled pattern: \<^verbatim>\<open>pattern.groups\<close>.\<close>

definition pattern_groups :: nat where
  "pattern_groups = 1"

text \<open>\<^verbatim>\<open>ESCAPES\<close> of the parser, as far as a template uses it.\<close>

definition escapes :: "char \<Rightarrow> char option" where
  "escapes c =
     (if c = CHR ''a'' then Some (CHR 0x07)
      else if c = CHR ''b'' then Some (CHR 0x08)
      else if c = CHR ''f'' then Some (CHR 0x0C)
      else if c = CHR ''n'' then Some (CHR 0x0A)
      else if c = CHR ''r'' then Some (CHR 0x0D)
      else if c = CHR ''t'' then Some (CHR 0x09)
      else if c = CHR ''v'' then Some (CHR 0x0B)
      else if c = backslash then Some backslash
      else None)"

definition addgroup :: "nat \<Rightarrow> error + titem list \<Rightarrow> error + titem list" where
  "addgroup index rest =
     (if index > pattern_groups then Inl ReError else cons_ok (Group index) rest)"

definition lappend :: "string \<Rightarrow> error + titem list \<Rightarrow> error + titem list" where
  "lappend s rest = cons_ok (Lit s) rest"

fun octal_next :: "token list \<Rightarrow> char option" where
  "octal_next (Chr d # ts) = (if is_octdigit d then Some d else None)"
| "octal_next _ = None"

fun digit_next :: "token list \<Rightarrow> char option" where
  "digit_next (Chr d # ts) = (if is_digit d then Some d else None)"
| "digit_next _ = None"

lemma getuntil_shorter: "getuntil ts = Some (name, rest) \<Longrightarrow> length rest < length ts"
  by (induction ts arbitrary: name) (auto split: if_splits option.splits)

function parse_tokens :: "token list \<Rightarrow> error + titem list" where
  "parse_tokens [] = Inr []"
| "parse_tokens (Chr c # ts) = lappend [c] (parse_tokens ts)"
| "parse_tokens (Esc c # ts) =
     (if c = CHR ''g'' then
        (case ts of
           [] \<Rightarrow> Inl ReError
         | t # ts1 \<Rightarrow>
             if t \<noteq> Chr (CHR ''<'') then Inl ReError
             else (case getuntil ts1 of
                     None \<Rightarrow> Inl ReError
                   | Some (name, rest) \<Rightarrow>
                       if name = [] then Inl ReError
                       else (case name_chars name of
                               None \<Rightarrow> Inl (if is_identifier name then IndexError else ReError)
                             | Some digits \<Rightarrow> addgroup (int_of 10 digits) (parse_tokens rest))))
      else if c = CHR ''0'' then
        (case octal_next ts of
           None \<Rightarrow> lappend [CHR 0x00] (parse_tokens ts)
         | Some d1 \<Rightarrow>
             (case octal_next (tl ts) of
                None \<Rightarrow> lappend [char_of (int_of 8 [d1] mod 256)] (parse_tokens (tl ts))
              | Some d2 \<Rightarrow>
                  lappend [char_of (int_of 8 [d1, d2] mod 256)] (parse_tokens (tl (tl ts)))))
      else if is_digit c then
        (case digit_next ts of
           None \<Rightarrow> addgroup (int_of 10 [c]) (parse_tokens ts)
         | Some d1 \<Rightarrow>
             (case (if is_octdigit c \<and> is_octdigit d1 then octal_next (tl ts) else None) of
                None \<Rightarrow> addgroup (int_of 10 [c, d1]) (parse_tokens (tl ts))
              | Some d2 \<Rightarrow>
                  if int_of 8 [c, d1, d2] > 255 then Inl ReError
                  else lappend [char_of (int_of 8 [c, d1, d2])] (parse_tokens (tl (tl ts)))))
      else
        (case escapes c of
           Some e \<Rightarrow> lappend [e] (parse_tokens ts)
         | None \<Rightarrow>
             if is_ascii_letter c then Inl ReError
             else lappend [backslash, c] (parse_tokens ts)))"
  by pat_completeness auto
termination
proof (relation "measure length", goal_cases)
  case 1
  show ?case by simp
qed (auto dest: getuntil_shorter split: if_splits elim!: octal_next.elims digit_next.elims)

definition parse_template :: "string \<Rightarrow> error + titem list" where
  "parse_template source =
     (case tokenize source of Inl e \<Rightarrow> Inl e | Inr ts \<Rightarrow> parse_tokens ts)"

text \<open>Filling in a parsed template for one match: group 0 is the whole match.\<close>

fun expand :: "titem list \<Rightarrow> string \<Rightarrow> string \<Rightarrow> string" where
  "expand [] whole g1 = []"
| "expand (Lit s # items) whole g1 = s @ expand items whole g1"
| "expand (Group n # items) whole g1 = (if n = 0 then whole else g1) @ expand items whole g1"

subsection \<open>The substitution (lines 33 to 37)\<close>

text \<open>
  The pattern is \<^verbatim>\<open>(\[.*?\])\(\<close> followed by \<^verbatim>\<open>re.escape(short)\<close> and
  \<^verbatim>\<open>\)\<close>: an opening bracket, as few characters other than the newline as
  possible, a closing bracket, and the token in parentheses, the token character by
  character. \<open>match_label short cs\<close> is the attempt to match at an opening bracket
  that is followed by \<open>cs\<close>: it tries the labels from the shortest on, and returns
  the label and the text after the match.
\<close>

fun match_label :: "string \<Rightarrow> string \<Rightarrow> (string \<times> string) option" where
  "match_label short [] = None"
| "match_label short (c # cs) =
     (if c = CHR '']'' \<and> prefix (CHR ''('' # short @ '')'') cs
      then Some ([], drop (length short + 2) cs)
      else if c = newline then None
      else (case match_label short cs of
              None \<Rightarrow> None
            | Some (label, rest) \<Rightarrow> Some (c # label, rest)))"

lemma match_label_shorter:
  "match_label short cs = Some (label, rest) \<Longrightarrow> length rest < length cs"
  by (induction cs arbitrary: label) (auto split: if_splits option.splits)

text \<open>
  \<^verbatim>\<open>pattern.sub(template, content)\<close>: the matches are looked for from the left,
  the search goes on after the end of each match, and every match is replaced by the
  expansion of the template, whose group 1 is the bracketed label.
\<close>

function sub_links :: "string \<Rightarrow> titem list \<Rightarrow> string \<Rightarrow> string" where
  "sub_links short template [] = []"
| "sub_links short template (c # cs) =
     (if c = CHR ''['' then
        (case match_label short cs of
           None \<Rightarrow> c # sub_links short template cs
         | Some (label, rest) \<Rightarrow>
             expand template (''['' @ label @ '']('' @ short @ '')'') (''['' @ label @ '']'')
               @ sub_links short template rest)
      else c # sub_links short template cs)"
  by pat_completeness auto
termination
  by (relation "measure (\<lambda>(short, template, cs). length cs)")
     (auto dest: match_label_shorter)

text \<open>One turn of the loop of line 34: compile the template, substitute.\<close>

definition template_of :: "string \<Rightarrow> string" where
  "template_of href = backslash # ''1('' @ href @ '')''"

definition restore_entry :: "string \<Rightarrow> string \<Rightarrow> string \<Rightarrow> error + string" where
  "restore_entry short href new_content =
     (case parse_template (template_of href) of
        Inl e \<Rightarrow> Inl e
      | Inr template \<Rightarrow> Inr (sub_links short template new_content))"

fun restore_content :: "mapping \<Rightarrow> string \<Rightarrow> error + string" where
  "restore_content [] new_content = Inr new_content"
| "restore_content ((short, href) # short_to_href) new_content =
     (case restore_entry short href new_content of
        Inl e \<Rightarrow> Inl e
      | Inr c \<Rightarrow> restore_content short_to_href c)"

subsection \<open>Files and the run (lines 8 to 14 and 22 to 45)\<close>

text \<open>
  The world the program runs in. The mapping file is absent, or present and unreadable
  (it cannot be opened or decoded, with the message of the exception), or present with
  its text. A document has its text, whether reading it fails, and what happens when it
  is opened for writing: the open fails and the file stays as it is, or the open
  succeeds, which empties the file, and then all the text gets written, or only its first
  \<open>n\<close> characters before the write fails. Texts are the texts as Python reads
  them, after decoding and the translation of line ends. \<open>tree\<close> is what
  \<^verbatim>\<open>os.walk('.')\<close> yields, the directories with their file names; \<open>stdout\<close> is the
  lines printed so far.
\<close>

datatype inventory = Absent | Unreadable string | Readable string

datatype write_mode = Writable | OpenFails string | WriteFails nat string

record document =
  text_of :: string
  read_error :: "string option"
  on_write :: write_mode

record world =
  inventory :: inventory
  tree :: "(string \<times> string list) list"
  files :: "string \<Rightarrow> document"
  stdout :: "string list"

definition href_inventory_path :: string where
  "href_inventory_path = ''hrefInventory.txt''"

definition print :: "string \<Rightarrow> world \<Rightarrow> world" where
  "print s w = w\<lparr>stdout := stdout w @ [s]\<rparr>"

definition store :: "string \<Rightarrow> string \<Rightarrow> world \<Rightarrow> world" where
  "store file_path s w = w\<lparr>files := (files w)(file_path := (files w file_path)\<lparr>text_of := s\<rparr>)\<rparr>"

text \<open>\<^verbatim>\<open>f.readlines()\<close>: the lines of the text, each with its newline.\<close>

fun readlines :: "string \<Rightarrow> string list" where
  "readlines [] = []"
| "readlines (c # cs) =
     (if c = newline then [c] # readlines cs
      else (case readlines cs of
              [] \<Rightarrow> [[c]]
            | l # ls \<Rightarrow> (c # l) # ls))"

text \<open>\<^verbatim>\<open>os.path.join\<close> on POSIX, for two components.\<close>

definition path_join :: "string \<Rightarrow> string \<Rightarrow> string" where
  "path_join a b =
     (if prefix ''/'' b then b
      else if a = [] \<or> suffix ''/'' a then a @ b
      else a @ ''/'' @ b)"

text \<open>
  Lines 25 to 45 for one file. An exception of the substitution leaves the function with
  the world as it is at that moment; the exceptions of reading and writing are caught.
\<close>

definition process_file :: "mapping \<Rightarrow> string \<Rightarrow> world \<Rightarrow> (error \<times> world) + world" where
  "process_file short_to_href file_path w =
     (case read_error (files w file_path) of
        Some e \<Rightarrow> Inr (print (''Could not read file '' @ file_path @ '': '' @ e) w)
      | None \<Rightarrow>
          (let content = text_of (files w file_path) in
           case restore_content short_to_href content of
             Inl e \<Rightarrow> Inl (e, w)
           | Inr new_content \<Rightarrow>
               if new_content \<noteq> content then
                 (case on_write (files w file_path) of
                    Writable \<Rightarrow>
                      Inr (print (''Restored links in '' @ file_path)
                            (store file_path new_content w))
                  | OpenFails e \<Rightarrow>
                      Inr (print (''Could not write to file '' @ file_path @ '': '' @ e) w)
                  | WriteFails n e \<Rightarrow>
                      Inr (print (''Could not write to file '' @ file_path @ '': '' @ e)
                            (store file_path (take n new_content) w)))
               else Inr w))"

text \<open>The loop of line 23 over the files of one directory.\<close>

fun process_dir :: "mapping \<Rightarrow> string \<Rightarrow> string list \<Rightarrow> world \<Rightarrow> (error \<times> world) + world" where
  "process_dir short_to_href root [] w = Inr w"
| "process_dir short_to_href root (file # fs) w =
     (if suffix ''.md'' file then
        (case process_file short_to_href (path_join root file) w of
           Inl e \<Rightarrow> Inl e
         | Inr w' \<Rightarrow> process_dir short_to_href root fs w')
      else process_dir short_to_href root fs w)"

text \<open>The loop of line 22 over the directories.\<close>

fun process_tree :: "mapping \<Rightarrow> (string \<times> string list) list \<Rightarrow> world \<Rightarrow> (error \<times> world) + world" where
  "process_tree short_to_href [] w = Inr w"
| "process_tree short_to_href ((root, fs) # dirs) w =
     (case process_dir short_to_href root fs w of
        Inl e \<Rightarrow> Inl e
      | Inr w' \<Rightarrow> process_tree short_to_href dirs w')"

definition restore_links :: "world \<Rightarrow> (error \<times> world) + world" where
  "restore_links w =
     (case inventory w of
        Absent \<Rightarrow> Inr (print (''Error: '' @ href_inventory_path @ '' not found.'') w)
      | Unreadable e \<Rightarrow> Inl (OSError e, w)
      | Readable txt \<Rightarrow>
          (case load_mapping (readlines txt) of
             Inl e \<Rightarrow> Inl (e, w)
           | Inr short_to_href \<Rightarrow> process_tree short_to_href (tree w) w))"

subsection \<open>Notions for stating the properties\<close>

text \<open>
  A link construct for a token: an opening bracket, a label on one line, a closing bracket
  and the token in parentheses, somewhere in the document.
\<close>

definition has_link :: "string \<Rightarrow> string \<Rightarrow> bool" where
  "has_link short doc =
     (\<exists>pre label post. doc = pre @ ''['' @ label @ '']('' @ short @ '')'' @ post
        \<and> newline \<notin> set label)"

text \<open>The same, computed: some opening bracket of the document starts a match.\<close>

fun find_link :: "string \<Rightarrow> string \<Rightarrow> bool" where
  "find_link short [] = False"
| "find_link short (c # cs) =
     ((c = CHR ''['' \<and> match_label short cs \<noteq> None) \<or> find_link short cs)"

text \<open>
  \<open>link_rewrite short doc doc'\<close>: \<open>doc'\<close> is \<open>doc\<close> with the parenthesized target
  of some link constructs for the token \<open>short\<close> replaced, each label on one line and
  kept, and every other character copied.
\<close>

inductive link_rewrite :: "string \<Rightarrow> string \<Rightarrow> string \<Rightarrow> bool" for short :: string where
  finish: "link_rewrite short [] []"
| keep: "link_rewrite short cs cs' \<Longrightarrow> link_rewrite short (c # cs) (c # cs')"
| link: "newline \<notin> set label \<Longrightarrow> link_rewrite short rest rest' \<Longrightarrow>
     link_rewrite short (''['' @ label @ '']('' @ short @ '')'' @ rest)
                        (''['' @ label @ '']('' @ target @ rest')"

text \<open>The pass over the mapping: one such rewriting for each entry, in the order of the entries.\<close>

inductive pass_rewrite :: "mapping \<Rightarrow> string \<Rightarrow> string \<Rightarrow> bool" where
  none: "pass_rewrite [] doc doc"
| step: "link_rewrite short doc doc' \<Longrightarrow> pass_rewrite m doc' doc'' \<Longrightarrow>
     pass_rewrite ((short, href) # m) doc doc''"

text \<open>The world a call ends in, whether it returns or raises.\<close>

fun world_of :: "(error \<times> world) + world \<Rightarrow> world" where
  "world_of (Inl (e, w)) = w"
| "world_of (Inr w) = w"

text \<open>
  A directory for the examples: the mapping file with one entry, and one document, at
  every path, with one link.
\<close>

definition sample_document :: document where
  "sample_document =
     \<lparr>text_of = ''See [here](abc123) for details.'', read_error = None, on_write = Writable\<rparr>"

definition sample_world :: world where
  "sample_world =
     \<lparr>inventory = Readable (''abc123||https://example.com/full-path'' @ [newline]),
      tree = [(''.'', [''hrefInventory.txt'', ''notes.md''])],
      files = (\<lambda>p. sample_document),
      stdout = []\<rparr>"

section \<open>The loader\<close>

lemma valid_line_declares:
  assumes "valid_line line" "contains_delim line"
  obtains short href where "split_delim (strip line) = [short, href]"
    and "declares line = Some (short, href)"
proof -
  from assms have "length (split_delim (strip line)) = 2" by (simp add: valid_line_def)
  then obtain short href where s: "split_delim (strip line) = [short, href]"
    by (auto simp: length_Suc_conv numeral_2_eq_2)
  with assms(2) have "declares line = Some (short, href)" by (simp add: declares_def)
  with s show ?thesis using that by blast
qed

lemma declares_no_delim: "\<not> contains_delim line \<Longrightarrow> declares line = None"
  by (simp add: declares_def)

text \<open>
  The loop invariant, from any dictionary \<open>d\<close> the loop starts with: the lookups of the
  result are those of the declarations read so far, the later ones first, in front of
  \<open>d\<close>; keys stay distinct.
\<close>

lemma load_lines_valid:
  assumes "\<forall>line \<in> set lines. valid_line line"
  shows "\<exists>m. load_lines d lines = Inr m
           \<and> map_of m = map_of (rev (List.map_filter declares lines) @ d)
           \<and> (distinct (map fst d) \<longrightarrow> distinct (map fst m))"
  using assms
proof (induction lines arbitrary: d)
  case Nil
  then show ?case by simp
next
  case (Cons line lines)
  show ?case
  proof (cases "contains_delim line")
    case False
    with Cons show ?thesis by (simp add: declares_no_delim)
  next
    case True
    from Cons.prems have "valid_line line" by simp
    then obtain short href where s: "split_delim (strip line) = [short, href]"
      and d: "declares line = Some (short, href)"
      using True by (rule valid_line_declares)
    from Cons.prems have "\<forall>line \<in> set lines. valid_line line" by simp
    from Cons.IH [OF this, of "AList.update short href d"]
    obtain m where m: "load_lines (AList.update short href d) lines = Inr m"
      "map_of m = map_of (rev (List.map_filter declares lines) @ AList.update short href d)"
      "distinct (map fst (AList.update short href d)) \<longrightarrow> distinct (map fst m)"
      by blast
    have "load_lines d (line # lines) = Inr m" using True s m(1) by simp
    moreover have "map_of m = map_of (rev (List.map_filter declares (line # lines)) @ d)"
      using m(2) d by (simp add: update_conv')
    moreover have "distinct (map fst d) \<longrightarrow> distinct (map fst m)"
      using m(3) by (simp add: distinct_update)
    ultimately show ?thesis by blast
  qed
qed

text \<open>
  Claim C4. When every line that has the delimiter splits into two fields, loading
  succeeds; the mapping has each token once; looking a token up gives the URL of the
  last line that declares it (the lookup in the reversed list of declarations finds the
  last one first). A line without the delimiter declares nothing (\<open>declares\<close> is
  \<open>None\<close> on it) and so contributes no entry.
\<close>

theorem load_mapping_last_declaration:
  assumes "\<forall>line \<in> set lines. valid_line line"
  shows "\<exists>m. load_mapping lines = Inr m
           \<and> distinct (map fst m)
           \<and> fst ` set m = fst ` set (List.map_filter declares lines)
           \<and> map_of m = map_of (rev (List.map_filter declares lines))"
proof -
  from load_lines_valid [OF assms, of "[]"]
  obtain m where m: "load_mapping lines = Inr m" "distinct (map fst m)"
    "map_of m = map_of (rev (List.map_filter declares lines))"
    by (auto simp: load_mapping_def)
  from m(3) have "dom (map_of m) = dom (map_of (rev (List.map_filter declares lines)))"
    by simp
  then have "fst ` set m = fst ` set (List.map_filter declares lines)"
    by (simp add: dom_map_of_conv_image_fst)
  with m show ?thesis by blast
qed

theorem load_mapping_last_declaration_witness:
  "valid_line (''a||b'' @ [newline]) \<and> valid_line (''no delimiter'' @ [newline])
   \<and> valid_line '' a||c ''
   \<and> load_mapping [''a||b'' @ [newline], ''no delimiter'' @ [newline], '' a||c '']
       = Inr [(''a'', ''c'')]"
proof -
  have h: "\<forall>line \<in> set [''a||b'' @ [newline], ''no delimiter'' @ [newline], '' a||c ''].
      valid_line line"
    by (simp add: valid_line_def bar_def newline_def strip_def is_space_def)
  have e: "load_mapping [''a||b'' @ [newline], ''no delimiter'' @ [newline], '' a||c '']
       = Inr [(''a'', ''c'')]"
    using load_mapping_last_declaration [OF h]
    by (simp add: load_mapping_def bar_def newline_def strip_def is_space_def)
  from h e show ?thesis by simp
qed

text \<open>
  Claim C5. A line with the delimiter twice: \<^verbatim>\<open>split('||')\<close> cuts it at both
  occurrences, the three pieces do not unpack into \<^verbatim>\<open>short, href\<close>, and loading
  raises \<^verbatim>\<open>ValueError\<close>.
\<close>

theorem load_mapping_two_delimiters:
  "split_delim (strip (''a||b||c'' @ [newline])) = [''a'', ''b'', ''c'']
   \<and> load_mapping [''a||b||c'' @ [newline]] = Inl ValueError"
  by (simp add: load_mapping_def bar_def newline_def strip_def is_space_def)

section \<open>Matching and substituting\<close>

lemma match_label_sound:
  "match_label short cs = Some (label, rest) \<Longrightarrow>
     cs = label @ '']('' @ short @ '')'' @ rest \<and> newline \<notin> set label"
proof (induction cs arbitrary: label)
  case Nil
  then show ?case by simp
next
  case (Cons c cs)
  show ?case
  proof (cases "c = CHR '']'' \<and> prefix (CHR ''('' # short @ '')'') cs")
    case True
    with Cons.prems have l: "label = []" and r: "rest = drop (length short + 2) cs" by auto
    from True obtain zs where "cs = (CHR ''('' # short @ '')'') @ zs" by (auto simp: prefix_def)
    with l r True show ?thesis by simp
  next
    case False
    with Cons.prems obtain l where "c \<noteq> newline" "match_label short cs = Some (l, rest)" "label = c # l"
      by (auto split: if_splits option.splits)
    with Cons.IH [of l] show ?thesis by simp
  qed
qed

lemma match_label_complete:
  "newline \<notin> set label \<Longrightarrow>
     \<exists>l r. match_label short (label @ '']('' @ short @ '')'' @ post) = Some (l, r)"
  by (induction label) auto


lemma has_link_Cons: "has_link short cs \<Longrightarrow> has_link short (c # cs)"
  unfolding has_link_def by (metis append_Cons)

lemma match_label_has_link:
  "match_label short cs = Some (label, rest) \<Longrightarrow> has_link short (CHR ''['' # cs)"
  unfolding has_link_def using match_label_sound [of short cs label rest]
  by (metis append_Cons append_Nil)

lemma sub_links_no_link:
  "\<not> has_link short doc \<Longrightarrow> sub_links short template doc = doc"
proof (induction short template doc rule: sub_links.induct)
  case (1 short template)
  then show ?case by simp
next
  case (2 short template c cs)
  from "2.prems" have n: "\<not> has_link short cs" using has_link_Cons by blast
  show ?case
  proof (cases "c = CHR ''[''")
    case True
    with "2.prems" have "match_label short cs = None"
      using match_label_has_link by (cases "match_label short cs") auto
    with True n "2.IH"(1) show ?thesis by simp
  next
    case False
    with n "2.IH"(3) show ?thesis by simp
  qed
qed


lemma tokenize_template_of:
  "tokenize (template_of href) =
     cons_ok (Esc (CHR ''1'')) (cons_ok (Chr (CHR ''('')) (tokenize (href @ '')'')))"
  by (cases href) (auto simp: template_of_def backslash_def)

lemma parse_template_of:
  "parse_template (template_of href) = Inr template \<Longrightarrow>
     \<exists>items. template = Group 1 # Lit ''('' # items"
  by (cases "tokenize (href @ '')'')"; cases "parse_tokens (projr (tokenize (href @ '')'')))")
     (auto simp: parse_template_def tokenize_template_of is_digit_def addgroup_def
        lappend_def pattern_groups_def int_of_def digit_val_def)


lemma sub_links_rewrite:
  "link_rewrite short doc (sub_links short (Group 1 # Lit ''('' # items) doc)"
proof (induction short "Group 1 # Lit ''('' # items" doc rule: sub_links.induct)
  case (1 short)
  show ?case by (simp add: link_rewrite.finish)
next
  case (2 short c cs)
  show ?case
  proof (cases "c = CHR ''[''")
    case False
    with "2.hyps"(3) show ?thesis by (simp add: link_rewrite.keep)
  next
    case True
    show ?thesis
    proof (cases "match_label short cs")
      case None
      with True "2.hyps"(1) show ?thesis by (simp add: link_rewrite.keep)
    next
      case (Some m)
      then obtain label rest where m: "match_label short cs = Some (label, rest)"
        by (cases m) simp
      from match_label_sound [OF m]
      have cs: "cs = label @ '']('' @ short @ '')'' @ rest" and nl: "newline \<notin> set label"
        by simp_all
      have r: "link_rewrite short rest (sub_links short (Group 1 # Lit ''('' # items) rest)"
        using True m by (rule "2.hyps"(2)) simp
      have "link_rewrite short (''['' @ label @ '']('' @ short @ '')'' @ rest)
         (''['' @ label @ '']('' @
            expand items (''['' @ label @ '']('' @ short @ '')'') (''['' @ label @ '']'')
            @ sub_links short (Group 1 # Lit ''('' # items) rest)"
        using nl r by (rule link_rewrite.link)
      moreover have "c # cs = ''['' @ label @ '']('' @ short @ '')'' @ rest"
        using True cs by simp
      moreover have "sub_links short (Group 1 # Lit ''('' # items) (c # cs) =
          ''['' @ label @ '']('' @
            expand items (''['' @ label @ '']('' @ short @ '')'') (''['' @ label @ '']'')
            @ sub_links short (Group 1 # Lit ''('' # items) rest"
        using True m by simp
      ultimately show ?thesis by simp
    qed
  qed
qed

lemma restore_entry_rewrite:
  "restore_entry short href doc = Inr doc' \<Longrightarrow> link_rewrite short doc doc'"
  using sub_links_rewrite parse_template_of
  by (fastforce simp: restore_entry_def split: sum.splits)





lemma prefix_append_long:
  "prefix p (cs @ xs) \<Longrightarrow> length p \<le> length cs \<Longrightarrow> prefix p cs"
  by (auto simp: prefix_append)

lemma prefix_append_straddle:
  assumes "prefix p (cs @ x # ys)" and "\<not> prefix p cs"
  shows "x \<in> set p"
proof -
  from assms obtain us where p: "p = cs @ us" and u: "prefix us (x # ys)"
    by (auto simp: prefix_append)
  from p assms(2) have "us \<noteq> []" by auto
  with u obtain us' where "us = x # us'" by (cases us) auto
  with p show ?thesis by simp
qed

lemma match_label_append:
  "match_label short cs = Some (label, rest) \<Longrightarrow>
     match_label short (cs @ xs) = Some (label, rest @ xs)"
proof (induction cs arbitrary: label)
  case Nil
  then show ?case by simp
next
  case (Cons c cs)
  show ?case
  proof (cases "c = CHR '']'' \<and> prefix (CHR ''('' # short @ '')'') cs")
    case True
    then have "length short + 2 \<le> length cs" by (auto dest: prefix_length_le)
    with True Cons.prems show ?thesis by auto
  next
    case False
    with Cons.prems obtain l where c: "c \<noteq> newline"
      and m: "match_label short cs = Some (l, rest)" and l: "label = c # l"
      by (auto split: if_splits option.splits)
    from match_label_sound [OF m] have "length short + 2 \<le> length cs" by simp
    then have "prefix (CHR ''('' # short @ '')'') (cs @ xs) \<Longrightarrow> prefix (CHR ''('' # short @ '')'') cs"
      by (auto intro: prefix_append_long)
    with False c l Cons.IH [OF m] show ?thesis by auto
  qed
qed

lemma match_label_extend:
  assumes "match_label short cs = None"
    and "x \<notin> set short" and "x \<noteq> CHR ''(''" and "x \<noteq> CHR '')''"
  shows "match_label short (cs @ x # ys) =
     (if newline \<in> set cs then None
      else (case match_label short (x # ys) of
              None \<Rightarrow> None
            | Some (label, rest) \<Rightarrow> Some (cs @ label, rest)))"
  using assms(1)
proof (induction cs)
  case Nil
  then show ?case by (simp split: option.splits)
next
  case (Cons c cs)
  have np: "\<not> prefix (CHR ''('' # short @ '')'') (cs @ x # ys)"
    if "\<not> prefix (CHR ''('' # short @ '')'') cs"
  proof
    assume "prefix (CHR ''('' # short @ '')'') (cs @ x # ys)"
    from prefix_append_straddle [OF this that] assms show False by auto
  qed
  show ?case
  proof (cases "c = CHR '']'' \<and> prefix (CHR ''('' # short @ '')'') cs")
    case True
    with Cons.prems show ?thesis by simp
  next
    case False
    show ?thesis
    proof (cases "c = newline")
      case True
      with False np show ?thesis by (auto simp: newline_def)
    next
      case nl: False
      with False Cons.prems have "match_label short cs = None"
        by (auto split: if_splits option.splits)
      from Cons.IH [OF this] False nl np show ?thesis
        by (auto split: option.splits)
    qed
  qed
qed


lemma find_link_has_link: "find_link short doc \<Longrightarrow> has_link short doc"
  by (induction doc) (auto dest: match_label_has_link has_link_Cons)

lemma has_link_find_link:
  "newline \<notin> set label \<Longrightarrow>
     find_link short (pre @ ''['' @ label @ '']('' @ short @ '')'' @ post)"
  using match_label_complete [of label short post] by (induction pre) auto

lemma has_link_iff: "has_link short doc \<longleftrightarrow> find_link short doc"
  using find_link_has_link has_link_find_link unfolding has_link_def by blast

lemma sub_links_copy:
  "CHR ''['' \<notin> set xs \<Longrightarrow> sub_links short template (xs @ ys) = xs @ sub_links short template ys"
  by (induction xs) auto



lemma sub_links_newline:
  assumes "newline \<notin> set short"
  shows "sub_links short template (xs @ newline # ys)
       = sub_links short template xs @ newline # sub_links short template ys"
  using assms
proof (induction short template xs rule: sub_links.induct)
  case (1 short template)
  show ?case by (simp add: newline_def)
next
  case (2 short template c cs)
  note p = "2.prems"
  show ?case
  proof (cases "c = CHR ''[''")
    case False
    with "2.IH"(3) [OF False p] show ?thesis by simp
  next
    case True
    show ?thesis
    proof (cases "match_label short cs")
      case (Some m)
      then obtain l rest where m: "match_label short cs = Some (l, rest)" by (cases m) simp
      from "2.IH"(2) [OF True m refl p] match_label_append [OF m, of "newline # ys"] True m
      show ?thesis by simp
    next
      case None
      have "match_label short (newline # ys) = None" by (simp add: newline_def)
      with match_label_extend [OF None p, of ys]
      have "match_label short (cs @ newline # ys) = None" by (simp add: newline_def)
      with "2.IH"(1) [OF True None p] True None show ?thesis by simp
    qed
  qed
qed



lemma restore_content_no_link:
  assumes "\<forall>(short, href) \<in> set m. \<not> has_link short doc"
  shows "restore_content m doc = Inr doc \<or> (\<exists>e. restore_content m doc = Inl e)"
  using assms
proof (induction m)
  case Nil
  then show ?case by simp
next
  case (Cons e m)
  obtain short href where e: "e = (short, href)" by (cases e)
  with Cons.prems have n: "\<not> has_link short doc" by simp
  show ?case
  proof (cases "parse_template (template_of href)")
    case (Inl x)
    with e show ?thesis by (simp add: restore_entry_def)
  next
    case (Inr t)
    with n have "restore_entry short href doc = Inr doc"
      by (simp add: restore_entry_def sub_links_no_link)
    with e Cons show ?thesis by simp
  qed
qed

lemma restore_content_templates:
  "restore_content m doc = Inr doc' \<Longrightarrow>
     \<forall>(short, href) \<in> set m. \<exists>t. parse_template (template_of href) = Inr t"
proof (induction m arbitrary: doc)
  case Nil
  then show ?case by simp
next
  case (Cons e m)
  obtain short href where e: "e = (short, href)" by (cases e)
  from Cons.prems e obtain d where d: "restore_entry short href doc = Inr d"
    and r: "restore_content m d = Inr doc'"
    by (auto split: sum.splits)
  from d have "\<exists>t. parse_template (template_of href) = Inr t"
    by (auto simp: restore_entry_def split: sum.splits)
  with Cons.IH [OF r] e show ?case by simp
qed

lemma restore_content_fixed:
  assumes "\<forall>(short, href) \<in> set m. \<exists>t. parse_template (template_of href) = Inr t"
    and "\<forall>(short, href) \<in> set m. \<not> has_link short doc"
  shows "restore_content m doc = Inr doc"
  using assms
proof (induction m)
  case Nil
  then show ?case by simp
next
  case (Cons e m)
  obtain short href where e: "e = (short, href)" by (cases e)
  with Cons.prems obtain t where "parse_template (template_of href) = Inr t"
    and "\<not> has_link short doc" by auto
  then have "restore_entry short href doc = Inr doc"
    by (simp add: restore_entry_def sub_links_no_link)
  with e Cons show ?case by simp
qed

lemma sample_path: "path_join ''.'' ''notes.md'' = ''./notes.md''"
  by code_simp

lemma sample_suffix: "suffix ''.md'' ''notes.md''"
  by code_simp

section \<open>The substitution pass\<close>




text \<open>
  Claim C2. Whatever the pass returns is the document rewritten entry by entry, and
  rewriting for an entry touches nothing but the parenthesized target of constructs
  \<^verbatim>\<open>[label](token)\<close> of that entry's token, with the label on one line: every other
  character, so every other occurrence of the token's text, is copied.
\<close>

theorem restore_content_rewrite:
  "restore_content m doc = Inr doc' \<Longrightarrow> pass_rewrite m doc doc'"
proof (induction m arbitrary: doc)
  case Nil
  then show ?case by (simp add: pass_rewrite.none)
next
  case (Cons e m)
  obtain short href where e: "e = (short, href)" by (cases e)
  from Cons.prems e obtain d where d: "restore_entry short href doc = Inr d"
    and r: "restore_content m d = Inr doc'"
    by (auto split: sum.splits)
  from d have "link_rewrite short doc d" by (rule restore_entry_rewrite)
  moreover from r have "pass_rewrite m d doc'" by (rule Cons.IH)
  ultimately show ?case unfolding e by (rule pass_rewrite.step)
qed

theorem restore_content_rewrite_witness:
  "restore_content [(''abc123'', ''https://example.com/full-path'')]
      ''abc123 (abc123) [here](abc123)''
     = Inr ''abc123 (abc123) [here](https://example.com/full-path)''
   \<and> pass_rewrite [(''abc123'', ''https://example.com/full-path'')]
      ''abc123 (abc123) [here](abc123)''
      ''abc123 (abc123) [here](https://example.com/full-path)''"
proof -
  have e: "restore_content [(''abc123'', ''https://example.com/full-path'')]
      ''abc123 (abc123) [here](abc123)''
     = Inr ''abc123 (abc123) [here](https://example.com/full-path)''"
    by code_simp
  from restore_content_rewrite [OF e] e show ?thesis by simp
qed

text \<open>
  Claim C7, as amended. When, after a first pass, no token of the mapping is left as the
  target of a link construct with a one-line label, a second pass returns the text of the
  first.
\<close>

theorem restore_twice_no_link_left:
  assumes "restore_content m doc = Inr doc'"
    and "\<forall>(short, href) \<in> set m. \<not> has_link short doc'"
  shows "restore_content m doc' = Inr doc'"
  using restore_content_fixed [OF restore_content_templates [OF assms(1)] assms(2)] .

theorem restore_twice_no_link_left_witness:
  "restore_content [(''abc123'', ''https://example.com/full-path'')]
       ''See [here](abc123) for details.''
     = Inr ''See [here](https://example.com/full-path) for details.''
   \<and> \<not> has_link ''abc123'' ''See [here](https://example.com/full-path) for details.''
   \<and> restore_content [(''abc123'', ''https://example.com/full-path'')]
       ''See [here](https://example.com/full-path) for details.''
     = Inr ''See [here](https://example.com/full-path) for details.''"
proof -
  have a: "restore_content [(''abc123'', ''https://example.com/full-path'')]
       ''See [here](abc123) for details.''
     = Inr ''See [here](https://example.com/full-path) for details.''"
    by code_simp
  have n: "\<not> has_link ''abc123'' ''See [here](https://example.com/full-path) for details.''"
    unfolding has_link_iff by code_simp
  then have "\<forall>(short, href) \<in> set [(''abc123'', ''https://example.com/full-path'')].
      \<not> has_link short ''See [here](https://example.com/full-path) for details.''"
    by simp
  from restore_twice_no_link_left [OF a this] a n show ?thesis by simp
qed

text \<open>
  A first pass can leave such a construct, or create one: here the second closing
  bracket finds its opening bracket only once the first link has been rewritten, and the
  second pass changes the text again.
\<close>

theorem restore_twice_counterexample:
  "restore_content [(''a'', ''u'')] ''[x](a)](a)'' = Inr ''[x](u)](a)''
   \<and> restore_content [(''a'', ''u'')] ''[x](u)](a)'' = Inr ''[x](u)](u)''
   \<and> ''[x](u)](u)'' \<noteq> ''[x](u)](a)''"
  by code_simp

text \<open>
  Claim C10, as amended. A link whose label has a newline, with no opening bracket in
  the label after that newline, and a token that has neither a newline nor an opening
  bracket: the substitution for that token rewrites the text up to the newline and the
  text after the link each on its own, and copies the rest of the link, target included.
\<close>

theorem restore_entry_multiline_label:
  assumes "newline \<notin> set short" and "CHR ''['' \<notin> set short" and "CHR ''['' \<notin> set l2"
    and "restore_entry short href (pre @ ''['' @ l1) = Inr a"
    and "restore_entry short href post = Inr b"
  shows "restore_entry short href
           (pre @ ''['' @ l1 @ [newline] @ l2 @ '']('' @ short @ '')'' @ post)
       = Inr (a @ [newline] @ l2 @ '']('' @ short @ '')'' @ b)"
proof -
  from assms(4) obtain t where t: "parse_template (template_of href) = Inr t"
    and a: "a = sub_links short t (pre @ ''['' @ l1)"
    by (auto simp: restore_entry_def split: sum.splits)
  from assms(5) t have b: "b = sub_links short t post"
    by (simp add: restore_entry_def)
  have "CHR ''['' \<notin> set (l2 @ '']('' @ short @ '')'')" using assms(2,3) by simp
  from sub_links_copy [OF this, of short t post]
  have "sub_links short t (l2 @ '']('' @ short @ '')'' @ post)
      = l2 @ '']('' @ short @ '')'' @ sub_links short t post" by simp
  with sub_links_newline [OF assms(1), of t "pre @ ''['' @ l1" "l2 @ '']('' @ short @ '')'' @ post"]
  have "sub_links short t (pre @ ''['' @ l1 @ [newline] @ l2 @ '']('' @ short @ '')'' @ post)
      = a @ [newline] @ l2 @ '']('' @ short @ '')'' @ b"
    unfolding a b by simp
  with t show ?thesis by (simp add: restore_entry_def)
qed

theorem restore_entry_multiline_label_witness:
  "newline \<notin> set ''abc123'' \<and> CHR ''['' \<notin> set ''abc123'' \<and> CHR ''['' \<notin> set ''here''
   \<and> restore_entry ''abc123'' ''https://example.com/full-path'' (''[x](abc123) '' @ ''['' @ ''see'')
       = Inr ''[x](https://example.com/full-path) [see''
   \<and> restore_entry ''abc123'' ''https://example.com/full-path'' '' [y](abc123)''
       = Inr '' [y](https://example.com/full-path)''
   \<and> restore_entry ''abc123'' ''https://example.com/full-path''
        (''[x](abc123) '' @ ''['' @ ''see'' @ [newline] @ ''here'' @ '']('' @ ''abc123'' @ '')''
          @ '' [y](abc123)'')
       = Inr (''[x](https://example.com/full-path) [see'' @ [newline] @ ''here'' @ '']('' @ ''abc123''
           @ '')'' @ '' [y](https://example.com/full-path)'')"
proof -
  have h: "newline \<notin> set ''abc123''" "CHR ''['' \<notin> set ''abc123''" "CHR ''['' \<notin> set ''here''"
    by (simp_all add: newline_def)
  have a: "restore_entry ''abc123'' ''https://example.com/full-path'' (''[x](abc123) '' @ ''['' @ ''see'')
       = Inr ''[x](https://example.com/full-path) [see''"
    by code_simp
  have b: "restore_entry ''abc123'' ''https://example.com/full-path'' '' [y](abc123)''
       = Inr '' [y](https://example.com/full-path)''"
    by code_simp
  from restore_entry_multiline_label [OF h a b] h a b show ?thesis by simp
qed

text \<open>
  With an opening bracket after the newline the match starts there, inside the label,
  and the target of the link is rewritten.
\<close>

theorem restore_entry_multiline_label_counterexample:
  "restore_content [(''t'', ''u'')] (''[a'' @ [newline] @ ''[b]c](t)'')
     = Inr (''[a'' @ [newline] @ ''[b]c](u)'')
   \<and> ''[a'' @ [newline] @ ''[b]c](u)'' \<noteq> ''[a'' @ [newline] @ ''[b]c](t)''"
  by code_simp

section \<open>The run\<close>

text \<open>
  The example directory: the one document is rewritten and reported.
\<close>

lemma sample_run:
  "stdout (world_of (restore_links sample_world)) = [''Restored links in ./notes.md'']
   \<and> text_of (files (world_of (restore_links sample_world)) ''./notes.md'')
       = ''See [here](https://example.com/full-path) for details.''"
  by code_simp

text \<open>
  Claim C3. Without the mapping file the run returns at once: it prints the error line
  that names \<^verbatim>\<open>hrefInventory.txt\<close>, and the world is otherwise the one it started
  in, every file as it was.
\<close>

theorem missing_inventory:
  assumes "inventory w = Absent"
  shows "restore_links w
       = Inr (w\<lparr>stdout := stdout w @ [''Error: hrefInventory.txt not found.'']\<rparr>)"
  using assms by (simp add: restore_links_def print_def href_inventory_path_def)

theorem missing_inventory_witness:
  "inventory (sample_world\<lparr>inventory := Absent\<rparr>) = Absent
   \<and> restore_links (sample_world\<lparr>inventory := Absent\<rparr>)
       = Inr (sample_world\<lparr>inventory := Absent,
                stdout := [''Error: hrefInventory.txt not found.'']\<rparr>)"
proof -
  have h: "inventory (sample_world\<lparr>inventory := Absent\<rparr>) = Absent" by simp
  from missing_inventory [OF h] h show ?thesis by (simp add: sample_world_def)
qed

text \<open>
  Claim C6. A document that can be read and whose text the pass returns unchanged is
  not written and not reported: the world after the file is the world before it. In
  particular, when no token of the mapping is the target of a link construct in the
  document, the world is unchanged, also when the pass raises.
\<close>

theorem unchanged_document_not_written:
  assumes "read_error (files w file_path) = None"
  shows "(restore_content m (text_of (files w file_path)) = Inr (text_of (files w file_path))
            \<longrightarrow> process_file m file_path w = Inr w)
       \<and> ((\<forall>(short, href) \<in> set m. \<not> has_link short (text_of (files w file_path)))
            \<longrightarrow> world_of (process_file m file_path w) = w)"
proof (intro conjI impI)
  assume "restore_content m (text_of (files w file_path)) = Inr (text_of (files w file_path))"
  with assms show "process_file m file_path w = Inr w" by (simp add: process_file_def)
next
  assume "\<forall>(short, href) \<in> set m. \<not> has_link short (text_of (files w file_path))"
  from restore_content_no_link [OF this] assms
  show "world_of (process_file m file_path w) = w"
    by (auto simp: process_file_def)
qed

theorem unchanged_document_not_written_witness:
  "read_error (files sample_world ''./notes.md'') = None
   \<and> \<not> has_link ''zzz'' (text_of (files sample_world ''./notes.md''))
   \<and> restore_content [(''zzz'', ''https://example.com/'')]
        (text_of (files sample_world ''./notes.md''))
       = Inr (text_of (files sample_world ''./notes.md''))
   \<and> process_file [(''zzz'', ''https://example.com/'')] ''./notes.md'' sample_world
       = Inr sample_world"
proof -
  have r: "read_error (files sample_world ''./notes.md'') = None"
    by (simp add: sample_world_def sample_document_def)
  have n: "\<not> has_link ''zzz'' (text_of (files sample_world ''./notes.md''))"
    unfolding has_link_iff sample_world_def sample_document_def by simp
  have c: "restore_content [(''zzz'', ''https://example.com/'')]
        (text_of (files sample_world ''./notes.md''))
       = Inr (text_of (files sample_world ''./notes.md''))"
    unfolding sample_world_def sample_document_def by code_simp
  from unchanged_document_not_written [OF r, of "[(''zzz'', ''https://example.com/'')]"] c
  have "process_file [(''zzz'', ''https://example.com/'')] ''./notes.md'' sample_world
       = Inr sample_world" by simp
  with r n c show ?thesis by simp
qed

text \<open>
  Claim C9. A document that cannot be read: the failure is printed with the path of the
  file, nothing else changes, no exception leaves the function, and the loop goes on
  with the next file of the directory.
\<close>

theorem read_failure_skipped:
  assumes "suffix ''.md'' file"
    and "read_error (files w (path_join root file)) = Some e"
  shows "process_file m (path_join root file) w
           = Inr (w\<lparr>stdout := stdout w
                  @ [''Could not read file '' @ path_join root file @ '': '' @ e]\<rparr>)
       \<and> process_dir m root (file # fs) w
           = process_dir m root fs (w\<lparr>stdout := stdout w
                  @ [''Could not read file '' @ path_join root file @ '': '' @ e]\<rparr>)"
  using assms by (simp add: process_file_def print_def)

theorem read_failure_skipped_witness:
  "suffix ''.md'' ''notes.md''
   \<and> read_error (files (sample_world\<lparr>files := \<lambda>p. sample_document\<lparr>read_error := Some ''Permission denied''\<rparr>\<rparr>)
         (path_join ''.'' ''notes.md'')) = Some ''Permission denied''
   \<and> process_dir [(''abc123'', ''https://example.com/full-path'')] ''.'' [''notes.md'']
        (sample_world\<lparr>files := \<lambda>p. sample_document\<lparr>read_error := Some ''Permission denied''\<rparr>\<rparr>)
       = Inr (sample_world\<lparr>files := \<lambda>p. sample_document\<lparr>read_error := Some ''Permission denied''\<rparr>,
                stdout := [''Could not read file ./notes.md: Permission denied'']\<rparr>)"
proof -
  let ?w = "sample_world\<lparr>files := \<lambda>p. sample_document\<lparr>read_error := Some ''Permission denied''\<rparr>\<rparr>"
  have r: "read_error (files ?w (path_join ''.'' ''notes.md'')) = Some ''Permission denied''"
    by simp
  have o: "stdout ?w = []" by (simp add: sample_world_def)
  from read_failure_skipped [OF sample_suffix r, of "[(''abc123'', ''https://example.com/full-path'')]" "[]"]
  have "process_dir [(''abc123'', ''https://example.com/full-path'')] ''.'' [''notes.md''] ?w
      = Inr (?w\<lparr>stdout := [''Could not read file ./notes.md: Permission denied'']\<rparr>)"
    unfolding sample_path o by simp
  with sample_suffix r show ?thesis by simp
qed

text \<open>
  Claim C8, as amended. A document whose new text cannot be written: the failure is
  printed with the path of the file and the loop goes on with the next file. When the
  open for writing fails the file keeps its text; when the write fails after the open,
  the file is left with the part of the new text that was written.
\<close>

theorem write_failure_logged:
  assumes "suffix ''.md'' file"
    and "read_error (files w (path_join root file)) = None"
    and "restore_content m (text_of (files w (path_join root file))) = Inr new_content"
    and "new_content \<noteq> text_of (files w (path_join root file))"
  shows "(on_write (files w (path_join root file)) = OpenFails e \<longrightarrow>
            process_dir m root (file # fs) w
              = process_dir m root fs (w\<lparr>stdout := stdout w
                  @ [''Could not write to file '' @ path_join root file @ '': '' @ e]\<rparr>))
       \<and> (on_write (files w (path_join root file)) = WriteFails n e \<longrightarrow>
            process_dir m root (file # fs) w
              = process_dir m root fs
                  (w\<lparr>files := (files w)(path_join root file :=
                         (files w (path_join root file))\<lparr>text_of := take n new_content\<rparr>),
                     stdout := stdout w
                  @ [''Could not write to file '' @ path_join root file @ '': '' @ e]\<rparr>))"
  using assms by (simp add: process_file_def print_def store_def)

theorem write_failure_logged_witness:
  "suffix ''.md'' ''notes.md''
   \<and> read_error (files (sample_world\<lparr>files := \<lambda>p. sample_document\<lparr>on_write := OpenFails ''Permission denied''\<rparr>\<rparr>)
         (path_join ''.'' ''notes.md'')) = None
   \<and> restore_content [(''abc123'', ''https://example.com/full-path'')]
        (text_of (files (sample_world\<lparr>files := \<lambda>p. sample_document\<lparr>on_write := OpenFails ''Permission denied''\<rparr>\<rparr>)
           (path_join ''.'' ''notes.md'')))
       = Inr ''See [here](https://example.com/full-path) for details.''
   \<and> ''See [here](https://example.com/full-path) for details.''
       \<noteq> text_of (files (sample_world\<lparr>files := \<lambda>p. sample_document\<lparr>on_write := OpenFails ''Permission denied''\<rparr>\<rparr>)
           (path_join ''.'' ''notes.md''))
   \<and> process_dir [(''abc123'', ''https://example.com/full-path'')] ''.'' [''notes.md'']
        (sample_world\<lparr>files := \<lambda>p. sample_document\<lparr>on_write := OpenFails ''Permission denied''\<rparr>\<rparr>)
       = Inr (sample_world\<lparr>files := \<lambda>p. sample_document\<lparr>on_write := OpenFails ''Permission denied''\<rparr>,
                stdout := [''Could not write to file ./notes.md: Permission denied'']\<rparr>)"
proof -
  let ?w = "sample_world\<lparr>files := \<lambda>p. sample_document\<lparr>on_write := OpenFails ''Permission denied''\<rparr>\<rparr>"
  let ?m = "[(''abc123'', ''https://example.com/full-path'')]"
  have r: "read_error (files ?w (path_join ''.'' ''notes.md'')) = None"
    by (simp add: sample_document_def)
  have t: "text_of (files ?w (path_join ''.'' ''notes.md'')) = ''See [here](abc123) for details.''"
    by (simp add: sample_document_def)
  have c: "restore_content ?m (text_of (files ?w (path_join ''.'' ''notes.md'')))
       = Inr ''See [here](https://example.com/full-path) for details.''"
    unfolding t by code_simp
  have d: "''See [here](https://example.com/full-path) for details.''
       \<noteq> text_of (files ?w (path_join ''.'' ''notes.md''))"
    unfolding t by simp
  have o: "on_write (files ?w (path_join ''.'' ''notes.md'')) = OpenFails ''Permission denied''"
    by (simp add: sample_document_def)
  have s: "stdout ?w = []" by (simp add: sample_world_def)
  from write_failure_logged [OF sample_suffix r c d, of "''Permission denied''" "[]"] o
  have "process_dir ?m ''.'' [''notes.md''] ?w
      = Inr (?w\<lparr>stdout := [''Could not write to file ./notes.md: Permission denied'']\<rparr>)"
    unfolding sample_path s by simp
  with sample_suffix r c d show ?thesis by simp
qed

text \<open>
  A write that fails after the open: the file is left empty, not with its text.
\<close>

theorem write_failure_counterexample:
  "text_of (files (sample_world\<lparr>files := \<lambda>p. sample_document\<lparr>on_write := WriteFails 0 ''No space left on device''\<rparr>\<rparr>) ''./notes.md'')
     = ''See [here](abc123) for details.''
   \<and> stdout (world_of (restore_links (sample_world\<lparr>files := \<lambda>p. sample_document\<lparr>on_write := WriteFails 0 ''No space left on device''\<rparr>\<rparr>)))
     = [''Could not write to file ./notes.md: No space left on device'']
   \<and> text_of (files (world_of (restore_links (sample_world\<lparr>files := \<lambda>p. sample_document\<lparr>on_write := WriteFails 0 ''No space left on device''\<rparr>\<rparr>))) ''./notes.md'')
     = []"
  by code_simp

end
